theory Spec2Isabelle
  imports Main "HOL-Library.Sublist" "HOL-Library.AList"
begin

section \<open>Python string primitives used by the pathname tools\<close>

text \<open>
  \<open>s.split(sep)\<close> for a one-character separator: the result is never empty, two adjacent
  separators enclose an empty segment, and a leading or trailing separator gives an empty
  first or last segment.
\<close>

fun str_split :: "char \<Rightarrow> string \<Rightarrow> string list" where
  "str_split sep [] = [[]]"
| "str_split sep (c # cs) =
     (if c = sep then [] # str_split sep cs
      else (case str_split sep cs of
              [] \<Rightarrow> [[c]]
            | w # ws \<Rightarrow> (c # w) # ws))"

text \<open>
  \<open>s.replace(old, new)\<close>: every non-overlapping occurrence of \<open>old\<close>, scanning from the
  left, is replaced by \<open>new\<close>. For the empty \<open>old\<close> Python inserts \<open>new\<close> before every
  character and at the end.
\<close>

fun str_replace :: "string \<Rightarrow> string \<Rightarrow> string \<Rightarrow> string" where
  "str_replace s [] new = new @ concat (map (\<lambda>c. c # new) s)"
| "str_replace [] (x # xs) new = []"
| "str_replace (c # cs) (x # xs) new =
     (if prefix (x # xs) (c # cs)
      then new @ str_replace (drop (length xs) cs) (x # xs) new
      else c # str_replace cs (x # xs) new)"

text \<open>
  \<open>s.lstrip(chars)\<close>: the argument is a set of characters, not a prefix; leading characters
  are dropped as long as they belong to it.
\<close>

definition str_lstrip :: "string \<Rightarrow> string \<Rightarrow> string" where
  "str_lstrip s chars = dropWhile (\<lambda>c. c \<in> set chars) s"

text \<open>\<open>xs.index(x)\<close>: the first position of \<open>x\<close>; \<open>None\<close> where Python raises.\<close>

fun list_index :: "'a list \<Rightarrow> 'a \<Rightarrow> nat option" where
  "list_index [] x = None"
| "list_index (y # ys) x = (if x = y then Some 0 else map_option Suc (list_index ys x))"


section \<open>Values and exceptions\<close>

text \<open>
  The values an entry of the parameter dictionary holds in the program: strings, booleans,
  the empty list (the default of \<open>zarr_output_prefix\<close>) and \<open>None\<close> (the default of
  \<open>parser_string_part\<close>).
\<close>

datatype pval = PNone | PBool bool | PStr string | PEmptyList

text \<open>\<open>str(v)\<close>, as an f-string formats a value.\<close>

fun py_str :: "pval \<Rightarrow> string" where
  "py_str PNone = ''None''"
| "py_str (PBool True) = ''True''"
| "py_str (PBool False) = ''False''"
| "py_str (PStr s) = s"
| "py_str PEmptyList = ''[]''"

text \<open>The truth value of a value in a condition.\<close>

fun truthy :: "pval \<Rightarrow> bool" where
  "truthy PNone = False"
| "truthy (PBool b) = b"
| "truthy (PStr s) = (s \<noteq> [])"
| "truthy PEmptyList = False"

text \<open>
  Every \<open>raise\<close> of the program is one constructor, carrying the values its message is
  formatted from; \<open>exn_class\<close> gives the Python class an \<open>except\<close> clause matches on.
  \<open>FormatError\<close> and \<open>ContextMismatchError\<close> are the two \<open>ValueError\<close>s of
  \<open>custom_f_part_parser\<close>. \<open>LibraryError\<close> is an exception raised inside an external
  library (object store client, container reader, array library).
\<close>

datatype pyclass = ValueError | KeyError | IndexError | TypeError | NotImplementedError | OtherError

datatype exn =
    InvalidPart string
  | FormatError "string list"
  | ContextMismatchError string pval
  | NotADssFile string
  | MissingCredential string
  | CannotAccess string pval
  | MissingParam string
  | IndexOutOfRange
  | NotInList
  | PathTypeError
  | MultiBucket
  | LibraryError pyclass

fun exn_class :: "exn \<Rightarrow> pyclass" where
  "exn_class (InvalidPart p) = ValueError"
| "exn_class (FormatError ps) = ValueError"
| "exn_class (ContextMismatchError p s) = ValueError"
| "exn_class (NotADssFile k) = ValueError"
| "exn_class (MissingCredential n) = ValueError"
| "exn_class (CannotAccess k b) = KeyError"
| "exn_class (MissingParam k) = KeyError"
| "exn_class IndexOutOfRange = IndexError"
| "exn_class NotInList = ValueError"
| "exn_class PathTypeError = TypeError"
| "exn_class MultiBucket = NotImplementedError"
| "exn_class (LibraryError c) = c"

section \<open>utils/dss\_tools.py\<close>

definition path_parts :: "string list" where
  "path_parts = [''A'', ''B'', ''C'', ''D'', ''E'', ''F'', ''G'', ''H'']"

text \<open>
  \<open>get_path_part\<close>: the role check, then the segment at \<open>position + 1\<close> of the pathname
  split on \<open>/\<close>, with spaces replaced by underscores. Indexing past the last segment raises
  \<open>IndexError\<close> in Python.
\<close>

definition get_path_part :: "string \<Rightarrow> string \<Rightarrow> exn + string" where
  "get_path_part pathname part =
     (if part \<notin> set path_parts then Inl (InvalidPart part)
      else (case list_index path_parts part of
              None \<Rightarrow> Inl NotInList
            | Some position \<Rightarrow>
                (let segs = str_split CHR ''/'' pathname in
                 if position + 1 < length segs
                 then Inr (str_replace (segs ! (position + 1)) '' '' ''_'')
                 else Inl IndexOutOfRange)))"

text \<open>
  \<open>remove_date\<close>: for each pathname, the text of segment 4 is replaced by the empty string
  wherever it occurs in the pathname; a pathname with fewer than five segments raises
  \<open>IndexError\<close>. The result is \<open>list(set(...))\<close>: the distinct stems in the iteration
  order of a Python set, which the language leaves open. That order is the parameter
  \<open>set_order\<close>, applied to the stems in insertion order.
\<close>

fun no_part_d :: "string list \<Rightarrow> exn + string list" where
  "no_part_d [] = Inr []"
| "no_part_d (pathname # rest) =
     (let segs = str_split CHR ''/'' pathname in
      if 4 < length segs
      then (case no_part_d rest of
              Inl e \<Rightarrow> Inl e
            | Inr stems \<Rightarrow> Inr (str_replace pathname (segs ! 4) [] # stems))
      else Inl IndexOutOfRange)"

definition remove_date :: "(string list \<Rightarrow> string list) \<Rightarrow> string list \<Rightarrow> exn + string list" where
  "remove_date set_order pathnames =
     (case no_part_d pathnames of
        Inl e \<Rightarrow> Inl e
      | Inr no_part_d_pathnames \<Rightarrow> Inr (set_order no_part_d_pathnames))"

text \<open>
  What every iteration order of a set satisfies: each element once, nothing else.
\<close>

definition set_order_ok :: "(string list \<Rightarrow> string list) \<Rightarrow> bool" where
  "set_order_ok set_order \<longleftrightarrow>
     (\<forall>xs. distinct (set_order xs) \<and> set (set_order xs) = set xs)"

text \<open>
  \<open>custom_f_part_parser\<close>: strip the characters of \<open>"RUN:"\<close> from the left, split on
  \<open>-\<close>, demand two parts, compare the first with \<open>string_part\<close>, return the second.
\<close>

definition custom_f_part_parser :: "string \<Rightarrow> pval \<Rightarrow> exn + string" where
  "custom_f_part_parser f_part string_part =
     (let parts = str_split CHR ''-'' (str_lstrip f_part ''RUN:'') in
      if length parts \<noteq> 2 then Inl (FormatError parts)
      else (let part_1 = parts ! 0; part_2 = parts ! 1 in
            if string_part \<noteq> PStr part_1 then Inl (ContextMismatchError part_1 string_part)
            else Inr part_2))"

section \<open>Notions the properties are stated with\<close>

text \<open>
  A pathname built from its flds: every field preceded by \<open>/\<close>, and a closing \<open>/\<close>.
  With eight flds free of \<open>/\<close> this is a valid eight-field pathname.
\<close>

definition mk_pathname :: "string list \<Rightarrow> string" where
  "mk_pathname flds = concat (map (\<lambda>f. CHR ''/'' # f) flds) @ ''/''"

text \<open>A string with every space turned into an underscore.\<close>

definition underscored :: "string \<Rightarrow> string" where
  "underscored s = map (\<lambda>c. if c = CHR '' '' then CHR ''_'' else c) s"

section \<open>The outside world\<close>

text \<open>
  The object store, the container reader and the array library are external. A run sees
  them through these functions; a library call that raises returns the exception.
  \<open>head_object\<close> holds when the call returns normally. \<open>fs_get\<close> downloads the object
  at a locator to the scratch file. \<open>getPathnameList\<close> and \<open>read_ts\<close> read the
  downloaded container of a locator. \<open>set_order\<close> is the iteration order of a set.
  \<open>assemble\<close> stands for the stacking of the grouped series into one labelled array and
  \<open>to_zarr\<close> for the write of the tree.
\<close>

record 'a tree =
  root_name :: pval
  group_name :: pval
  leaf_name :: pval
  variable :: pval
  array :: 'a

record ('v, 'a) world =
  head_object :: "pval \<Rightarrow> string \<Rightarrow> bool"
  fs_get :: "string \<Rightarrow> exn option"
  getPathnameList :: "string \<Rightarrow> string \<Rightarrow> exn + string list"
  read_ts :: "string \<Rightarrow> string \<Rightarrow> exn + 'v"
  set_order :: "string list \<Rightarrow> string list"
  assemble :: "(string \<times> (string \<times> 'v) list) list \<Rightarrow> exn + 'a"
  to_zarr :: "string \<Rightarrow> 'a tree \<Rightarrow> exn option"

text \<open>The calls to the object store and the records of the error log, in order.\<close>

datatype 'a event =
    HeadObject pval string
  | Download string
  | ZarrWrite string "'a tree"
  | LogError exn

section \<open>extract\_data\_from\_dss\<close>

text \<open>
  A Python dictionary keeps insertion order and assigning to a present key keeps its place:
  an association list under \<open>AList.update\<close>. The grouped dataset maps an event key to a
  dictionary from element key to series.
\<close>

type_synonym 'v grouped = "(string \<times> (string \<times> 'v) list) list"

text \<open>
  The body of the loop over the stems: the F and B parts, the read of the series, the event
  key (through the custom parser when one is given), then
  \<open>dss_data[new_entry][b_part] = data\<close> after creating the inner dictionary when the
  event key is new.
\<close>

fun extract_loop ::
  "('v, 'a) world \<Rightarrow> string \<Rightarrow> pval \<Rightarrow> (string \<Rightarrow> pval \<Rightarrow> exn + string) option \<Rightarrow>
   string list \<Rightarrow> 'v grouped \<Rightarrow> exn + 'v grouped" where
  "extract_loop w dss_key parser_string_part custom_parser [] dss_data = Inr dss_data"
| "extract_loop w dss_key parser_string_part custom_parser (pathname # rest) dss_data =
     (case get_path_part pathname ''F'' of
        Inl e \<Rightarrow> Inl e
      | Inr f_part \<Rightarrow>
     (case get_path_part pathname ''B'' of
        Inl e \<Rightarrow> Inl e
      | Inr b_part \<Rightarrow>
     (case read_ts w dss_key pathname of
        Inl e \<Rightarrow> Inl e
      | Inr data \<Rightarrow>
     (case (case custom_parser of
              Some parser \<Rightarrow> parser f_part parser_string_part
            | None \<Rightarrow> Inr f_part) of
        Inl e \<Rightarrow> Inl e
      | Inr new_entry \<Rightarrow>
          (let dss_data1 = (if new_entry \<notin> fst ` set dss_data
                            then AList.update new_entry [] dss_data else dss_data)
           in extract_loop w dss_key parser_string_part custom_parser rest
                (AList.map_entry new_entry (AList.update b_part data) dss_data1))))))"

text \<open>
  The download, the listing of the pathnames that match the pattern, the deduplication, the
  loop. The second component is the object-store traffic of the call.
\<close>

definition extract_data_from_dss ::
  "('v, 'a) world \<Rightarrow> string \<Rightarrow> string \<Rightarrow> pval \<Rightarrow> (string \<Rightarrow> pval \<Rightarrow> exn + string) option \<Rightarrow>
   (exn + 'v grouped) \<times> 'a event list" where
  "extract_data_from_dss w dss_key dss_internal_pathname_pattern parser_string_part custom_parser =
     (case fs_get w dss_key of
        Some e \<Rightarrow> (Inl e, [Download dss_key])
      | None \<Rightarrow>
          (case getPathnameList w dss_key dss_internal_pathname_pattern of
             Inl e \<Rightarrow> (Inl e, [Download dss_key])
           | Inr dss_internal_pathnames \<Rightarrow>
               (case remove_date (set_order w) dss_internal_pathnames of
                  Inl e \<Rightarrow> (Inl e, [Download dss_key])
                | Inr pathnames \<Rightarrow>
                    (extract_loop w dss_key parser_string_part custom_parser pathnames [],
                     [Download dss_key]))))"

section \<open>utils/aws\_tools.py\<close>

text \<open>
  \<open>Path(key).suffix\<close> as pathlib computes it for a POSIX path: the name is the last
  segment that is neither empty nor \<open>.\<close>; the suffix starts at the last dot of the name
  when that dot is neither its first nor its last character.
\<close>

definition str_rfind :: "string \<Rightarrow> char \<Rightarrow> nat option" where
  "str_rfind s c =
     (if c \<in> set s then Some (length s - 1 - length (takeWhile (\<lambda>x. x \<noteq> c) (rev s))) else None)"

definition path_name :: "string \<Rightarrow> string" where
  "path_name key =
     (case filter (\<lambda>x. x \<noteq> [] \<and> x \<noteq> ''.'') (str_split CHR ''/'' key) of
        [] \<Rightarrow> []
      | p # ps \<Rightarrow> last (p # ps))"

definition path_suffix :: "string \<Rightarrow> string" where
  "path_suffix key =
     (let name = path_name key in
      case str_rfind name CHR ''.'' of
        None \<Rightarrow> []
      | Some i \<Rightarrow> if 0 < i \<and> i + 1 < length name then drop i name else [])"

text \<open>
  \<open>check_file_exists\<close>: the suffix test on the key, then the \<open>head_object\<close> call, any
  failure of which becomes a \<open>KeyError\<close>. A key that is not a string makes \<open>Path\<close> raise
  \<open>TypeError\<close>.
\<close>

definition check_file_exists ::
  "('v, 'a) world \<Rightarrow> pval \<Rightarrow> pval \<Rightarrow> (exn + unit) \<times> 'a event list" where
  "check_file_exists w bucket key =
     (case key of
        PStr k \<Rightarrow>
          if path_suffix k \<noteq> ''.dss'' then (Inl (NotADssFile k), [])
          else if head_object w bucket k then (Inr (), [HeadObject bucket k])
          else (Inl (CannotAccess k bucket), [HeadObject bucket k])
      | _ \<Rightarrow> (Inl PathTypeError, []))"

section \<open>dss\_to\_zarr.py\<close>

text \<open>\<open>params.get(key, default)\<close>.\<close>

definition params_get :: "(string \<rightharpoonup> pval) \<Rightarrow> string \<Rightarrow> pval \<Rightarrow> pval" where
  "params_get params key dflt = (case params key of None \<Rightarrow> dflt | Some v \<Rightarrow> v)"

record main_result =
  zarr_s3_key :: string
  success :: "string list"
  failures :: "string list"

text \<open>
  \<open>main\<close>. \<open>env\<close> is the set of names in the process environment once the dotenv file is
  loaded. The result is the raised exception, or the returned value: \<open>None\<close> for the bare
  \<open>return\<close>, the result dictionary otherwise; with it, the object-store traffic and the
  error log of the run.
\<close>

definition main ::
  "('v, 'a) world \<Rightarrow> string set \<Rightarrow> (string \<rightharpoonup> pval) \<Rightarrow>
   (exn + main_result option) \<times> 'a event list" where
  "main w env params =
     (let dss_input_bucket = params_get params ''dss_input_bucket'' (PStr '''');
          dss_input_key = params_get params ''dss_input_key'' (PStr '''');
          zarr_output_bucket = params_get params ''zarr_output_bucket'' (PStr '''');
          zarr_output_prefix = params_get params ''zarr_output_prefix'' PEmptyList;
          c_part_variable = params_get params ''simplify'' (PStr ''FLOW'');
          group_id = params_get params ''group_id'' (PStr ''main_group'');
          use_custom_parser = params_get params ''use_custom_parser'' (PBool False);
          sub_group_name = params_get params ''sub_group_name'' (PStr ''sub_group'')
      in
      case params ''dss_input_bucket'' of
        None \<Rightarrow> (Inl (MissingParam ''dss_input_bucket''), [])
      | Some in_bucket \<Rightarrow>
      (case params ''zarr_output_bucket'' of
        None \<Rightarrow> (Inl (MissingParam ''zarr_output_bucket''), [])
      | Some out_bucket \<Rightarrow>
      if in_bucket \<noteq> out_bucket then (Inl MultiBucket, [])
      else if ''AWS_ACCESS_KEY_ID'' \<notin> env then (Inl (MissingCredential ''AWS_ACCESS_KEY_ID''), [])
      else if ''AWS_SECRET_ACCESS_KEY'' \<notin> env
        then (Inl (MissingCredential ''AWS_SECRET_ACCESS_KEY''), [])
      else
      (case check_file_exists w dss_input_bucket dss_input_key of
        (Inl e, evs) \<Rightarrow>
          if exn_class e = ValueError \<or> exn_class e = KeyError
          then (Inr None, evs @ [LogError e])
          else (Inl e, evs)
      | (Inr u, evs) \<Rightarrow>
      (let zarr_output = ''s3://'' @ py_str zarr_output_bucket @ ''/'' @ py_str zarr_output_prefix;
           dss_internal_pathname_pattern = ''/*/*/'' @ py_str c_part_variable @ ''/*/*/*/'';
           dss_key = ''s3://'' @ py_str dss_input_bucket @ ''/'' @ py_str dss_input_key;
           finish = (\<lambda>data_dict evs1.
             case assemble w data_dict of
               Inl e \<Rightarrow> (Inl e, evs1)
             | Inr da \<Rightarrow>
                 (let dt = \<lparr>root_name = group_id, group_name = group_id,
                            leaf_name = sub_group_name, variable = c_part_variable,
                            array = da\<rparr>
                  in case to_zarr w zarr_output dt of
                       Some e \<Rightarrow> (Inl e, evs1 @ [ZarrWrite zarr_output dt])
                     | None \<Rightarrow>
                         (Inr (Some \<lparr>zarr_s3_key = zarr_output, success = [], failures = []\<rparr>),
                          evs1 @ [ZarrWrite zarr_output dt])))
       in
       if truthy use_custom_parser
       then (case extract_data_from_dss w dss_key dss_internal_pathname_pattern
                    sub_group_name (Some custom_f_part_parser) of
               (Inl e, evs2) \<Rightarrow>
                 if exn_class e = ValueError
                 then (Inr None, evs @ evs2 @ [LogError e])
                 else (Inl e, evs @ evs2)
             | (Inr data_dict, evs2) \<Rightarrow> finish data_dict (evs @ evs2))
       else (case extract_data_from_dss w dss_key dss_internal_pathname_pattern PNone None of
               (Inl e, evs2) \<Rightarrow> (Inl e, evs @ evs2)
             | (Inr data_dict, evs2) \<Rightarrow> finish data_dict (evs @ evs2))))))"

section \<open>Reading a grouped dataset\<close>

text \<open>The series stored under an event key and an element key.\<close>

definition grouped_lookup :: "'v grouped \<Rightarrow> string \<Rightarrow> string \<Rightarrow> 'v option" where
  "grouped_lookup d ev el = (case map_of d ev of None \<Rightarrow> None | Some m \<Rightarrow> map_of m el)"

text \<open>No event key and, under an event, no element key occurs twice.\<close>

definition single_keyed :: "'v grouped \<Rightarrow> bool" where
  "single_keyed d \<longleftrightarrow> distinct (map fst d) \<and> (\<forall>m\<in>snd ` set d. distinct (map fst m))"

text \<open>
  What one stem contributes: the event key, the element key and the series, as the first
  four statements of the loop body compute them.
\<close>

definition resolve_entry ::
  "('v, 'a) world \<Rightarrow> string \<Rightarrow> pval \<Rightarrow> (string \<Rightarrow> pval \<Rightarrow> exn + string) option \<Rightarrow>
   string \<Rightarrow> exn + (string \<times> string \<times> 'v)" where
  "resolve_entry w dss_key parser_string_part custom_parser pathname =
     (case get_path_part pathname ''F'' of
        Inl e \<Rightarrow> Inl e
      | Inr f_part \<Rightarrow>
     (case get_path_part pathname ''B'' of
        Inl e \<Rightarrow> Inl e
      | Inr b_part \<Rightarrow>
     (case read_ts w dss_key pathname of
        Inl e \<Rightarrow> Inl e
      | Inr data \<Rightarrow>
     (case (case custom_parser of
              Some parser \<Rightarrow> parser f_part parser_string_part
            | None \<Rightarrow> Inr f_part) of
        Inl e \<Rightarrow> Inl e
      | Inr new_entry \<Rightarrow> Inr (new_entry, b_part, data)))))"

text \<open>The insertion of the loop body: the inner dictionary is created when the event is new.\<close>

definition put_series :: "'v grouped \<Rightarrow> string \<Rightarrow> string \<Rightarrow> 'v \<Rightarrow> 'v grouped" where
  "put_series d ev el v =
     AList.map_entry ev (AList.update el v)
       (if ev \<notin> fst ` set d then AList.update ev [] d else d)"

text \<open>The series of the last stem of a list that resolves to a given pair of keys.\<close>

fun last_match ::
  "('v, 'a) world \<Rightarrow> string \<Rightarrow> pval \<Rightarrow> (string \<Rightarrow> pval \<Rightarrow> exn + string) option \<Rightarrow>
   string list \<Rightarrow> string \<Rightarrow> string \<Rightarrow> 'v option" where
  "last_match w k sp cp [] ev el = None"
| "last_match w k sp cp (p # ps) ev el =
     (case last_match w k sp cp ps ev el of
        Some v \<Rightarrow> Some v
      | None \<Rightarrow>
          (case resolve_entry w k sp cp p of
             Inr (ev', el', v) \<Rightarrow> if ev' = ev \<and> el' = el then Some v else None
           | Inl e \<Rightarrow> None))"

section \<open>Splitting and replacing\<close>

lemma str_split_not_Nil: "str_split sep s \<noteq> []"
  by (induction s) (auto split: list.splits)

lemma str_split_Cons_other:
  "c \<noteq> sep \<Longrightarrow> str_split sep (c # cs) = (c # hd (str_split sep cs)) # tl (str_split sep cs)"
  using str_split_not_Nil [of sep cs] by (cases "str_split sep cs") auto

lemma str_split_append_nosep:
  "sep \<notin> set a \<Longrightarrow>
   str_split sep (a @ b) = (a @ hd (str_split sep b)) # tl (str_split sep b)"
proof (induction a)
  case Nil
  then show ?case using str_split_not_Nil [of sep b] by simp
next
  case (Cons c a)
  then have "c \<noteq> sep" and "sep \<notin> set a" by auto
  with Cons.IH show ?case
    by (simp add: str_split_Cons_other [of c sep "a @ b"] del: str_split.simps)
qed

lemma str_split_nosep: "sep \<notin> set a \<Longrightarrow> str_split sep a = [a]"
  using str_split_append_nosep [of sep a "[]"] by simp

lemma str_split_append_sep:
  "sep \<notin> set a \<Longrightarrow> str_split sep (a @ sep # b) = a # str_split sep b"
  using str_split_append_nosep [of sep a "sep # b"] by simp

lemma str_split_segments_nosep: "seg \<in> set (str_split sep s) \<Longrightarrow> sep \<notin> set seg"
proof (induction s arbitrary: seg)
  case Nil
  then show ?case by simp
next
  case (Cons c cs)
  show ?case
  proof (cases "c = sep")
    case True
    then show ?thesis using Cons by auto
  next
    case False
    obtain w ws where ws: "str_split sep cs = w # ws"
      using str_split_not_Nil [of sep cs] by (cases "str_split sep cs") auto
    with False Cons show ?thesis by auto
  qed
qed

lemma str_split_length: "length (str_split sep s) = Suc (count_list s sep)"
  by (induction s) (auto split: list.splits simp: str_split_not_Nil)

lemma str_replace_space: "str_replace s '' '' ''_'' = map (\<lambda>c. if c = CHR '' '' then CHR ''_'' else c) s"
  by (induction s) auto

lemma str_replace_empty_empty: "str_replace s [] [] = s"
  by (induction s) auto

lemma str_replace_self_prefix:
  "d \<noteq> [] \<Longrightarrow> str_replace (d @ h) d new = new @ str_replace h d new"
  by (cases d) auto

lemma str_replace_not_prefix:
  "d \<noteq> [] \<Longrightarrow> \<not> prefix d (c # w) \<Longrightarrow> str_replace (c # w) d new = c # str_replace w d new"
  by (cases d) auto

lemma hd_str_split_prefix: "prefix (hd (str_split sep s)) s"
proof (induction s)
  case Nil
  then show ?case by simp
next
  case (Cons c cs)
  then show ?case using str_split_not_Nil [of sep cs]
    by (cases "str_split sep cs") auto
qed

lemma str_split_str_replace:
  assumes "d \<noteq> []" and "CHR ''/'' \<notin> set d"
  shows "str_split CHR ''/'' (str_replace p d []) = map (\<lambda>seg. str_replace seg d []) (str_split CHR ''/'' p)"
  using assms
proof (induction p d "[] :: string" rule: str_replace.induct)
  case (1 s)
  then show ?case by simp
next
  case (2 x xs)
  then show ?case by simp
next
  case (3 c cs x xs)
  let ?d = "x # xs"
  let ?f = "\<lambda>seg. str_replace seg ?d []"
  show ?case
  proof (cases "prefix ?d (c # cs)")
    case True
    then obtain rest where rest: "c # cs = ?d @ rest" by (auto simp: prefix_def)
    then have dr: "drop (length xs) cs = rest" by auto
    have ih: "str_split CHR ''/'' (str_replace rest ?d []) = map ?f (str_split CHR ''/'' rest)"
      using 3(1) [OF True] 3(3,4) dr by simp
    have lhs: "str_replace (c # cs) ?d [] = str_replace rest ?d []"
      using True dr by simp
    have "str_split CHR ''/'' (c # cs) =
          (?d @ hd (str_split CHR ''/'' rest)) # tl (str_split CHR ''/'' rest)"
      unfolding rest using str_split_append_nosep [OF 3(4)] by simp
    then have "map ?f (str_split CHR ''/'' (c # cs)) =
          ?f (hd (str_split CHR ''/'' rest)) # map ?f (tl (str_split CHR ''/'' rest))"
      using str_replace_self_prefix [of ?d _ "[]"] by simp
    also have "\<dots> = map ?f (str_split CHR ''/'' rest)"
      using str_split_not_Nil [of "CHR ''/''" rest] by (cases "str_split CHR ''/'' rest") auto
    finally show ?thesis using ih lhs by simp
  next
    case False
    have ih: "str_split CHR ''/'' (str_replace cs ?d []) = map ?f (str_split CHR ''/'' cs)"
      using 3(2) [OF False] 3(3,4) by simp
    have lhs: "str_replace (c # cs) ?d [] = c # str_replace cs ?d []"
      using False by auto
    show ?thesis
    proof (cases "c = CHR ''/''")
      case True
      then show ?thesis using ih lhs by simp
    next
      case c: False
      obtain w ws where ws: "str_split CHR ''/'' cs = w # ws"
        using str_split_not_Nil [of "CHR ''/''" cs] by (cases "str_split CHR ''/'' cs") auto
      have "prefix w cs" using hd_str_split_prefix [of "CHR ''/''" cs] ws by simp
      then have np: "\<not> prefix ?d (c # w)"
        using False by (meson Cons_prefix_Cons prefix_order.order_trans)
      have "?f (c # w) = c # ?f w"
        using str_replace_not_prefix [OF _ np] by simp
      then show ?thesis using ih lhs c ws by simp
    qed
  qed
qed
section \<open>Pathnames built from fields\<close>

lemma str_split_mk_pathname:
  "\<forall>f\<in>set flds. CHR ''/'' \<notin> set f \<Longrightarrow>
   str_split CHR ''/'' (mk_pathname flds) = [] # flds @ [[]]"
proof (induction flds)
  case Nil
  then show ?case by (simp add: mk_pathname_def)
next
  case (Cons f flds)
  then have ih: "str_split CHR ''/'' (mk_pathname flds) = [] # flds @ [[]]"
    and f: "CHR ''/'' \<notin> set f" by auto
  have "mk_pathname (f # flds) = CHR ''/'' # (f @ mk_pathname flds)"
    by (simp add: mk_pathname_def)
  then show ?case
    using str_split_append_nosep [OF f, of "mk_pathname flds"] ih by simp
qed

lemma list_index_nth:
  "distinct xs \<Longrightarrow> i < length xs \<Longrightarrow> list_index xs (xs ! i) = Some i"
proof (induction xs arbitrary: i)
  case Nil
  then show ?case by simp
next
  case (Cons y ys)
  then show ?case by (cases i) auto
qed

lemma path_parts_distinct: "distinct path_parts" and path_parts_length: "length path_parts = 8"
  by (simp_all add: path_parts_def)

section \<open>Field extraction\<close>

text \<open>
  C6. For every pathname made of eight fields free of \<open>/\<close>, and every one of the eight
  roles, \<open>get_path_part\<close> returns the field at the role's position with each space
  replaced by an underscore.
\<close>
theorem get_path_part_valid_pathname:
  assumes "length flds = 8" and "\<forall>f\<in>set flds. CHR ''/'' \<notin> set f" and "i < 8"
  shows "get_path_part (mk_pathname flds) (path_parts ! i) = Inr (underscored (flds ! i))"
proof -
  have idx: "list_index path_parts (path_parts ! i) = Some i"
    using list_index_nth [OF path_parts_distinct] assms(3) path_parts_length by simp
  have mem: "path_parts ! i \<in> set path_parts"
    using assms(3) path_parts_length by simp
  have segs: "str_split CHR ''/'' (mk_pathname flds) = [] # flds @ [[]]"
    using str_split_mk_pathname [OF assms(2)] .
  have "([] # flds @ [[]]) ! (i + 1) = flds ! i"
    using assms(1,3) by (simp add: nth_append)
  then show ?thesis
    using idx mem segs assms(1,3)
    by (simp add: get_path_part_def str_replace_space underscored_def)
qed

theorem get_path_part_valid_pathname_witness:
  "get_path_part ''/a/Alderson/FLOW/01Jan1996/1Hour/RUN:Jan 1996 - Calibration/g/h/'' ''F''
     = Inr ''RUN:Jan_1996_-_Calibration''"
  using get_path_part_valid_pathname
    [of "[''a'', ''Alderson'', ''FLOW'', ''01Jan1996'', ''1Hour'', ''RUN:Jan 1996 - Calibration'', ''g'', ''h'']" 5]
  by (simp add: mk_pathname_def path_parts_def underscored_def)

lemma list_index_G: "list_index path_parts ''G'' = Some 6"
  and list_index_H: "list_index path_parts ''H'' = Some 7"
  by (simp_all add: path_parts_def)

text \<open>
  C9, as the code has it. The role check does not make \<open>get_path_part\<close> total: role H
  raises the index error on every pathname with fewer than nine segments, and role G raises
  it exactly on the pathnames with fewer than eight segments.
\<close>
theorem get_path_part_index_error:
  "(length (str_split CHR ''/'' pathname) < 9 \<longrightarrow> get_path_part pathname ''H'' = Inl IndexOutOfRange)
   \<and> (get_path_part pathname ''G'' = Inl IndexOutOfRange \<longleftrightarrow> length (str_split CHR ''/'' pathname) < 8)"
proof -
  have "''G'' \<in> set path_parts" and "''H'' \<in> set path_parts" by (simp_all add: path_parts_def)
  then show ?thesis
    by (auto simp: get_path_part_def list_index_G list_index_H Let_def)
qed

text \<open>
  C9 as stated fails for role G: a six-field pathname with its leading and closing \<open>/\<close>
  has eight segments, and G returns the empty last one.
\<close>
theorem get_path_part_G_six_fields:
  "length (str_split CHR ''/'' ''//Alderson/FLOW/01Jan1996/1Hour/RUN:Jan 1996 - Calibration/'') < 9
   \<and> get_path_part ''//Alderson/FLOW/01Jan1996/1Hour/RUN:Jan 1996 - Calibration/'' ''G'' = Inr []"
  by (simp add: get_path_part_def path_parts_def)

theorem get_path_part_index_error_witness:
  "get_path_part ''//Alderson/FLOW/01Jan1996/1Hour/RUN:Jan 1996 - Calibration/'' ''H'' = Inl IndexOutOfRange
   \<and> get_path_part ''//Alderson/FLOW/01Jan1996/1Hour'' ''G'' = Inl IndexOutOfRange"
  using get_path_part_index_error [of "''//Alderson/FLOW/01Jan1996/1Hour/RUN:Jan 1996 - Calibration/''"]
    get_path_part_index_error [of "''//Alderson/FLOW/01Jan1996/1Hour''"]
  by simp

section \<open>The custom resolver\<close>

text \<open>
  The three examples of the specification, on the code: a match, a context mismatch, and a
  field with three parts.
\<close>

lemma custom_parser_spec_examples:
  "custom_f_part_parser ''RUN:Y001-E0001'' (PStr ''Y001'') = Inr ''E0001''"
  "custom_f_part_parser ''RUN:Y001-E0001'' (PStr ''Y002'')
     = Inl (ContextMismatchError ''Y001'' (PStr ''Y002''))"
  "custom_f_part_parser ''RUN:Y001-E0001-X'' ctx = Inl (FormatError [''Y001'', ''E0001'', ''X''])"
  by (simp_all add: custom_f_part_parser_def Let_def str_lstrip_def)

text \<open>
  C4 at the field \<open>RUN:RY001-E0001\<close> with expected context \<open>Y001\<close>: once the literal
  prefix \<open>RUN:\<close> is removed the field splits on \<open>-\<close> into the two parts \<open>RY001\<close> and
  \<open>E0001\<close>, and the first differs from the expected context, yet the resolver raises
  nothing and returns \<open>E0001\<close>, because \<open>lstrip\<close> also removes the leading \<open>R\<close> of the
  first part.
\<close>

theorem custom_parser_lstrip_hides_mismatch:
  "str_split CHR ''-'' ''RY001-E0001'' = [''RY001'', ''E0001'']
   \<and> ''RY001'' \<noteq> ''Y001''
   \<and> custom_f_part_parser (''RUN:'' @ ''RY001-E0001'') (PStr ''Y001'') = Inr ''E0001''"
  by (simp add: custom_f_part_parser_def str_lstrip_def Let_def)

text \<open>
  C2 at the field \<open>RUN:N001-E0001\<close> with expected context \<open>N001\<close>: neither part
  contains \<open>-\<close>, yet the resolver fails, because \<open>lstrip\<close> removes the leading \<open>N\<close> of
  the context together with the prefix.
\<close>

theorem custom_parser_lstrip_eats_context:
  "CHR ''-'' \<notin> set ''N001'' \<and> CHR ''-'' \<notin> set ''E0001''
   \<and> custom_f_part_parser (''RUN:'' @ ''N001'' @ ''-'' @ ''E0001'') (PStr ''N001'')
        = Inl (ContextMismatchError ''001'' (PStr ''N001''))"
  by (simp add: custom_f_part_parser_def str_lstrip_def Let_def)

text \<open>
  Where the custom resolver does return the suffix: the context must not begin with one of
  the characters \<open>R\<close>, \<open>U\<close>, \<open>N\<close>, \<open>:\<close> that \<open>lstrip\<close> removes.
\<close>

lemma custom_parser_returns_suffix:
  assumes "CHR ''-'' \<notin> set ctx" and "CHR ''-'' \<notin> set suf"
    and "ctx = [] \<or> hd ctx \<notin> set ''RUN:''"
  shows "custom_f_part_parser (''RUN:'' @ ctx @ ''-'' @ suf) (PStr ctx) = Inr suf"
proof -
  have "dropWhile (\<lambda>c. c \<in> set ''RUN:'') (ctx @ ''-'' @ suf) = ctx @ ''-'' @ suf"
    using assms(3) by (cases ctx) auto
  then have strip: "str_lstrip (''RUN:'' @ ctx @ ''-'' @ suf) ''RUN:'' = ctx @ ''-'' @ suf"
    by (simp add: str_lstrip_def)
  have "str_split CHR ''-'' (ctx @ ''-'' @ suf) = [ctx, suf]"
    using str_split_append_sep [OF assms(1), of suf] str_split_nosep [OF assms(2)] by simp
  then show ?thesis unfolding custom_f_part_parser_def strip by (simp add: Let_def)
qed

section \<open>Deduplication by the time field\<close>

text \<open>
  C3 at two pathnames that differ in the D field only, where the text of the first D field
  also occurs in the F field: the replacement removes it there too and two stems remain.
\<close>
theorem remove_date_text_elsewhere:
  "remove_date remdups [''//ALDERSON/FLOW/01JAN1996/1HOUR/RUN:01JAN1996/'',
                        ''//ALDERSON/FLOW/01FEB1996/1HOUR/RUN:01JAN1996/'']
     = Inr [''//ALDERSON/FLOW//1HOUR/RUN:/'', ''//ALDERSON/FLOW//1HOUR/RUN:01JAN1996/'']"
  by (simp add: remove_date_def)

lemma str_replace_self: "d \<noteq> [] \<Longrightarrow> str_replace d d [] = []"
  by (cases d) simp_all

lemma stem_segment_4_empty:
  assumes "4 < length (str_split CHR ''/'' p)"
  shows "4 < length (str_split CHR ''/'' (str_replace p (str_split CHR ''/'' p ! 4) []))
         \<and> str_split CHR ''/'' (str_replace p (str_split CHR ''/'' p ! 4) []) ! 4 = []"
proof (cases "str_split CHR ''/'' p ! 4 = []")
  case True
  then show ?thesis using assms by (simp add: str_replace_empty_empty)
next
  case False
  let ?d = "str_split CHR ''/'' p ! 4"
  have "?d \<in> set (str_split CHR ''/'' p)" using assms by simp
  then have "CHR ''/'' \<notin> set ?d" by (rule str_split_segments_nosep)
  then have "str_split CHR ''/'' (str_replace p ?d [])
             = map (\<lambda>seg. str_replace seg ?d []) (str_split CHR ''/'' p)"
    using str_split_str_replace [OF False] by simp
  then show ?thesis using assms False by (simp add: str_replace_self)
qed

lemma no_part_d_stems:
  "no_part_d ps = Inr stems \<Longrightarrow>
   \<forall>s\<in>set stems. 4 < length (str_split CHR ''/'' s) \<and> str_split CHR ''/'' s ! 4 = []"
proof (induction ps arbitrary: stems)
  case Nil
  then show ?case by simp
next
  case (Cons p ps)
  from Cons.prems obtain rest where len: "4 < length (str_split CHR ''/'' p)"
    and rest: "no_part_d ps = Inr rest"
    and stems: "stems = str_replace p (str_split CHR ''/'' p ! 4) [] # rest"
    by (auto simp: Let_def split: if_splits sum.splits)
  show ?case using Cons.IH [OF rest] stem_segment_4_empty [OF len] stems by simp
qed

lemma no_part_d_fixed:
  "\<forall>s\<in>set ys. 4 < length (str_split CHR ''/'' s) \<and> str_split CHR ''/'' s ! 4 = [] \<Longrightarrow>
   no_part_d ys = Inr ys"
  by (induction ys) (simp_all add: str_replace_empty_empty)

text \<open>
  C8. \<open>remove_date\<close> is idempotent: applied to its own result it succeeds and returns the
  same set of stems, whatever the iteration order of the set.
\<close>
theorem remove_date_idempotent:
  assumes "set_order_ok ord" and "remove_date ord pathnames = Inr stems"
  shows "\<exists>again. remove_date ord stems = Inr again \<and> set again = set stems"
proof -
  from assms(2) obtain raw where raw: "no_part_d pathnames = Inr raw"
    and stems: "stems = ord raw"
    by (auto simp: remove_date_def split: sum.splits)
  have "set stems = set raw" using assms(1) stems by (simp add: set_order_ok_def)
  then have "no_part_d stems = Inr stems"
    using no_part_d_stems [OF raw] no_part_d_fixed by simp
  then show ?thesis using assms(1) by (simp add: remove_date_def set_order_ok_def)
qed

theorem remove_date_idempotent_witness:
  "set_order_ok remdups
   \<and> remove_date remdups [''//Alderson/FLOW/01Jan1996/1Hour/RUN:A/'',
                           ''//Alderson/FLOW/01Feb1996/1Hour/RUN:A/'',
                           ''//Beckley/FLOW/01Jan1996/1Hour/RUN:A/'']
       = Inr [''//Alderson/FLOW//1Hour/RUN:A/'', ''//Beckley/FLOW//1Hour/RUN:A/'']
   \<and> (\<exists>again. remove_date remdups [''//Alderson/FLOW//1Hour/RUN:A/'', ''//Beckley/FLOW//1Hour/RUN:A/'']
                 = Inr again
         \<and> set again = set [''//Alderson/FLOW//1Hour/RUN:A/'', ''//Beckley/FLOW//1Hour/RUN:A/''])"
proof -
  have ok: "set_order_ok remdups" by (simp add: set_order_ok_def)
  have once: "remove_date remdups [''//Alderson/FLOW/01Jan1996/1Hour/RUN:A/'',
                           ''//Alderson/FLOW/01Feb1996/1Hour/RUN:A/'',
                           ''//Beckley/FLOW/01Jan1996/1Hour/RUN:A/'']
       = Inr [''//Alderson/FLOW//1Hour/RUN:A/'', ''//Beckley/FLOW//1Hour/RUN:A/'']"
    by (simp add: remove_date_def)
  show ?thesis using ok once remove_date_idempotent [OF ok once] by simp
qed

section \<open>The extraction loop\<close>

lemma extract_loop_step:
  "extract_loop w k sp cp (p # rest) d =
     (case resolve_entry w k sp cp p of
        Inl e \<Rightarrow> Inl e
      | Inr (ev, el, v) \<Rightarrow> extract_loop w k sp cp rest (put_series d ev el v))"
  by (simp add: resolve_entry_def put_series_def Let_def split: sum.splits option.splits)

lemma grouped_lookup_put_series:
  "grouped_lookup (put_series d ev el v) ev' el' =
     (if ev' = ev \<and> el' = el then Some v else grouped_lookup d ev' el')"
proof (cases "ev \<in> fst ` set d")
  case True
  then obtain m where "map_of d ev = Some m"
    by (metis map_of_eq_None_iff not_None_eq)
  with True show ?thesis
    by (auto simp: grouped_lookup_def put_series_def AList.map_of_map_entry AList.update_conv')
next
  case False
  then have "map_of d ev = None" by (simp add: map_of_eq_None_iff)
  with False show ?thesis
    by (auto simp: grouped_lookup_def put_series_def AList.map_of_map_entry AList.update_conv')
qed

lemma map_entry_values:
  "m \<in> snd ` set (AList.map_entry k f xs) \<Longrightarrow> m \<in> snd ` set xs \<or> (\<exists>m0 \<in> snd ` set xs. m = f m0)"
  by (induction xs) (auto split: if_splits)

lemma update_values:
  "m \<in> snd ` set (AList.update k v xs) \<Longrightarrow> m \<in> snd ` set xs \<or> m = v"
  by (induction xs) (auto split: if_splits)

lemma single_keyed_put_series:
  assumes "single_keyed d"
  shows "single_keyed (put_series d ev el v)"
proof -
  let ?d1 = "if ev \<notin> fst ` set d then AList.update ev [] d else d"
  have d1: "single_keyed ?d1"
  proof (cases "ev \<in> fst ` set d")
    case True
    then show ?thesis using assms by simp
  next
    case False
    have "distinct (map fst m)" if "m \<in> snd ` set (AList.update ev [] d)" for m
      using update_values [OF that] assms by (auto simp: single_keyed_def)
    then show ?thesis
      using False assms by (simp add: single_keyed_def AList.distinct_update)
  qed
  have "distinct (map fst (AList.map_entry ev (AList.update el v) ?d1))"
    using d1 by (simp add: single_keyed_def AList.distinct_map_entry del: AList.map_entry.simps)
  moreover have "distinct (map fst m)"
    if "m \<in> snd ` set (AList.map_entry ev (AList.update el v) ?d1)" for m
    using map_entry_values [OF that] d1
    by (auto simp: single_keyed_def AList.distinct_update)
  ultimately show ?thesis by (simp add: single_keyed_def put_series_def)
qed

lemma grouped_lookup_step:
  assumes r: "resolve_entry w k sp cp p = Inr (ev, el, v)"
    and look: "grouped_lookup d' ev' el' =
                 (case last_match w k sp cp ps ev' el' of
                    Some v \<Rightarrow> Some v
                  | None \<Rightarrow> grouped_lookup (put_series d ev el v) ev' el')"
  shows "grouped_lookup d' ev' el' =
                 (case last_match w k sp cp (p # ps) ev' el' of
                    Some v \<Rightarrow> Some v
                  | None \<Rightarrow> grouped_lookup d ev' el')"
proof (cases "last_match w k sp cp ps ev' el'")
  case None
  have "last_match w k sp cp (p # ps) ev' el' = (if ev = ev' \<and> el = el' then Some v else None)"
    using None r by simp
  moreover have "grouped_lookup d' ev' el' = grouped_lookup (put_series d ev el v) ev' el'"
    using look None by simp
  ultimately show ?thesis
    by (simp add: grouped_lookup_put_series)
next
  case (Some v')
  have "last_match w k sp cp (p # ps) ev' el' = Some v'"
    using Some by simp
  moreover have "grouped_lookup d' ev' el' = Some v'"
    using look Some by simp
  ultimately show ?thesis by simp
qed

lemma extract_loop_result:
  assumes "\<forall>p\<in>set ps. \<exists>r. resolve_entry w k sp cp p = Inr r"
  shows "\<exists>d'. extract_loop w k sp cp ps d = Inr d'
           \<and> (\<forall>ev el. grouped_lookup d' ev el =
                 (case last_match w k sp cp ps ev el of
                    Some v \<Rightarrow> Some v
                  | None \<Rightarrow> grouped_lookup d ev el))
           \<and> (single_keyed d \<longrightarrow> single_keyed d')"
  using assms
proof (induction ps arbitrary: d)
  case Nil
  then show ?case by simp
next
  case (Cons p ps)
  from Cons.prems have "\<exists>r. resolve_entry w k sp cp p = Inr r" by simp
  then obtain r where "resolve_entry w k sp cp p = Inr r" ..
  then obtain ev el v where r: "resolve_entry w k sp cp p = Inr (ev, el, v)"
    by (cases r) simp
  from Cons.prems have rest: "\<forall>p\<in>set ps. \<exists>r. resolve_entry w k sp cp p = Inr r" by simp
  from Cons.IH [OF rest, of "put_series d ev el v"]
  obtain d' where d': "extract_loop w k sp cp ps (put_series d ev el v) = Inr d'
           \<and> (\<forall>ev' el'. grouped_lookup d' ev' el' =
                 (case last_match w k sp cp ps ev' el' of
                    Some v \<Rightarrow> Some v
                  | None \<Rightarrow> grouped_lookup (put_series d ev el v) ev' el'))
           \<and> (single_keyed (put_series d ev el v) \<longrightarrow> single_keyed d')" ..
  from d' have run: "extract_loop w k sp cp ps (put_series d ev el v) = Inr d'" by (rule conjunct1)
  from d' have look: "grouped_lookup d' ev' el' =
                 (case last_match w k sp cp ps ev' el' of
                    Some v \<Rightarrow> Some v
                  | None \<Rightarrow> grouped_lookup (put_series d ev el v) ev' el')" for ev' el'
    by (elim conjE allE)
  from d' have keyed: "single_keyed (put_series d ev el v) \<longrightarrow> single_keyed d'"
    by (elim conjE)
  have step: "extract_loop w k sp cp (p # ps) d = Inr d'"
    unfolding extract_loop_step r using run by simp
  have lk: "grouped_lookup d' ev' el' =
                 (case last_match w k sp cp (p # ps) ev' el' of
                    Some v \<Rightarrow> Some v
                  | None \<Rightarrow> grouped_lookup d ev' el')" for ev' el'
    using r look [of ev' el'] by (rule grouped_lookup_step)
  have sk: "single_keyed d \<longrightarrow> single_keyed d'"
  proof
    assume "single_keyed d"
    then have "single_keyed (put_series d ev el v)" by (rule single_keyed_put_series)
    with keyed show "single_keyed d'" by simp
  qed
  show ?case
  proof (intro exI conjI allI)
    show "extract_loop w k sp cp (p # ps) d = Inr d'" by (rule step)
    show "grouped_lookup d' ev' el' =
                 (case last_match w k sp cp (p # ps) ev' el' of
                    Some v \<Rightarrow> Some v
                  | None \<Rightarrow> grouped_lookup d ev' el')" for ev' el' by (rule lk)
    show "single_keyed d \<longrightarrow> single_keyed d'" by (rule sk)
  qed
qed

lemma last_match_none:
  "\<forall>q\<in>set qs. \<forall>v'. resolve_entry w k sp cp q \<noteq> Inr (ev, el, v') \<Longrightarrow>
   last_match w k sp cp qs ev el = None"
proof (induction qs)
  case Nil
  show ?case by simp
next
  case (Cons q qs)
  from Cons.prems have "\<forall>q\<in>set qs. \<forall>v'. resolve_entry w k sp cp q \<noteq> Inr (ev, el, v')"
    by simp
  then have tl: "last_match w k sp cp qs ev el = None" by (rule Cons.IH)
  from Cons.prems have hd: "resolve_entry w k sp cp q \<noteq> Inr (ev, el, v')" for v'
    by simp
  show ?case
  proof (cases "resolve_entry w k sp cp q")
    case (Inl e)
    then show ?thesis using tl by simp
  next
    case (Inr t)
    obtain ev' el' v' where t: "t = (ev', el', v')" by (cases t)
    have "\<not> (ev' = ev \<and> el' = el)"
    proof
      assume "ev' = ev \<and> el' = el"
      then have "resolve_entry w k sp cp q = Inr (ev, el, v')" using Inr t by simp
      then show False using hd [of v'] by simp
    qed
    then show ?thesis using tl Inr t by simp
  qed
qed

lemma last_match_append:
  assumes "resolve_entry w k sp cp p = Inr (ev, el, v)"
    and "\<forall>q\<in>set ys. \<forall>v'. resolve_entry w k sp cp q \<noteq> Inr (ev, el, v')"
  shows "last_match w k sp cp (xs @ p # ys) ev el = Some v"
proof (induction xs)
  case Nil
  show ?case using last_match_none [OF assms(2)] assms(1) by simp
next
  case (Cons x xs)
  then show ?case by simp
qed

lemma drop_elements_later:
  assumes "q \<in> set (drop (Suc j) ps)"
  shows "\<exists>l. j < l \<and> l < length ps \<and> ps ! l = q"
proof -
  from assms obtain i where i: "i < length (drop (Suc j) ps)" and q: "drop (Suc j) ps ! i = q"
    by (auto simp: in_set_conv_nth)
  then have "Suc j + i < length ps" by simp
  moreover have "ps ! (Suc j + i) = q" using i q by simp
  ultimately show ?thesis by (intro exI [of _ "Suc j + i"]) simp
qed

lemma last_match_index:
  assumes "j < length ps" and "resolve_entry w k sp cp (ps ! j) = Inr (ev, el, v)"
    and "\<forall>l. j < l \<and> l < length ps \<longrightarrow> (\<forall>v'. resolve_entry w k sp cp (ps ! l) \<noteq> Inr (ev, el, v'))"
  shows "last_match w k sp cp ps ev el = Some v"
proof -
  have later: "\<forall>q\<in>set (drop (Suc j) ps). \<forall>v'. resolve_entry w k sp cp q \<noteq> Inr (ev, el, v')"
  proof
    fix q assume "q \<in> set (drop (Suc j) ps)"
    then have "\<exists>l. j < l \<and> l < length ps \<and> ps ! l = q"
      by (rule drop_elements_later)
    then obtain l where l: "j < l \<and> l < length ps" and q: "ps ! l = q"
      by (elim exE conjE) simp
    from assms(3) l have "\<forall>v'. resolve_entry w k sp cp (ps ! l) \<noteq> Inr (ev, el, v')"
      by simp
    then show "\<forall>v'. resolve_entry w k sp cp q \<noteq> Inr (ev, el, v')"
      using q by simp
  qed
  have "last_match w k sp cp (take j ps @ ps ! j # drop (Suc j) ps) ev el = Some v"
    using assms(2) later by (rule last_match_append)
  then show ?thesis using id_take_nth_drop [OF assms(1)] by simp
qed

text \<open>
  C7. When two distinct stems resolve to the same event key and element key, and every
  stem reads and resolves, the extraction returns normally, the series stored under the
  pair is the one read for the later stem (the last that resolves to the pair), and the
  grouped dataset holds one series per pair.
\<close>

theorem later_read_overwrites:
  fixes w :: "('v, 'a) world"
  assumes "fs_get w key = None"
    and "getPathnameList w key pattern = Inr names"
    and "remove_date (set_order w) names = Inr stems"
    and "\<forall>p\<in>set stems. \<exists>r. resolve_entry w key sp cp p = Inr r"
    and "i < j" and "j < length stems" and "stems ! i \<noteq> stems ! j"
    and "resolve_entry w key sp cp (stems ! i) = Inr (ev, el, v1)"
    and "resolve_entry w key sp cp (stems ! j) = Inr (ev, el, v2)"
    and "\<forall>l. j < l \<and> l < length stems \<longrightarrow>
           (\<forall>v. resolve_entry w key sp cp (stems ! l) \<noteq> Inr (ev, el, v))"
  shows "\<exists>d. fst (extract_data_from_dss w key pattern sp cp) = Inr d
           \<and> grouped_lookup d ev el = Some v2 \<and> single_keyed d"
proof -
  from extract_loop_result [OF assms(4), of "[]"]
  obtain d where d: "extract_loop w key sp cp stems [] = Inr d
           \<and> (\<forall>ev el. grouped_lookup d ev el =
                 (case last_match w key sp cp stems ev el of
                    Some v \<Rightarrow> Some v
                  | None \<Rightarrow> grouped_lookup [] ev el))
           \<and> (single_keyed ([] :: 'v grouped) \<longrightarrow> single_keyed d)" ..
  from d have run: "extract_loop w key sp cp stems [] = Inr d" by (rule conjunct1)
  from d have look: "grouped_lookup d ev el =
                 (case last_match w key sp cp stems ev el of
                    Some v \<Rightarrow> Some v
                  | None \<Rightarrow> grouped_lookup [] ev el)"
    by (elim conjE allE)
  from d have keyed: "single_keyed ([] :: 'v grouped) \<longrightarrow> single_keyed d"
    by (elim conjE)
  have "last_match w key sp cp stems ev el = Some v2"
    using last_match_index [OF assms(6) assms(9) assms(10)] .
  then have "grouped_lookup d ev el = Some v2" using look by simp
  moreover have "single_keyed d" using keyed by (simp add: single_keyed_def)
  moreover have "fst (extract_data_from_dss w key pattern sp cp) = Inr d"
    using run assms(1-3) by (simp add: extract_data_from_dss_def)
  ultimately show ?thesis by blast
qed


theorem later_read_overwrites_witness:
  "\<exists>d. fst (extract_data_from_dss
              \<lparr>head_object = (\<lambda>b k. True), fs_get = (\<lambda>k. None),
                getPathnameList = (\<lambda>k p. Inr [''//Alderson/FLOW/01Jan1996/1Hour/RUN:A/'',
                                                ''//Alderson/FLOW/01Jan1996/1Day/RUN:A/'']),
                read_ts = (\<lambda>k p. if p = ''//Alderson/FLOW//1Hour/RUN:A/''
                                     then Inr [1, 2, 3 :: int] else Inr [7, 8, 9]),
                set_order = remdups, assemble = Inr, to_zarr = (\<lambda>l t. None)\<rparr>
              ''s3://b/k.dss'' ''/*/*/FLOW/*/*/*/'' PNone None) = Inr d
        \<and> grouped_lookup d ''RUN:A'' ''Alderson'' = Some [7, 8, 9] \<and> single_keyed d"
proof -
  let ?w = "\<lparr>head_object = (\<lambda>b k. True), fs_get = (\<lambda>k. None),
                getPathnameList = (\<lambda>k p. Inr [''//Alderson/FLOW/01Jan1996/1Hour/RUN:A/'',
                                                ''//Alderson/FLOW/01Jan1996/1Day/RUN:A/'']),
                read_ts = (\<lambda>k p. if p = ''//Alderson/FLOW//1Hour/RUN:A/''
                                     then Inr [1, 2, 3 :: int] else Inr [7, 8, 9]),
                set_order = remdups, assemble = Inr :: int list grouped \<Rightarrow> exn + int list grouped,
                to_zarr = (\<lambda>l t. None)\<rparr>"
  let ?stems = "[''//Alderson/FLOW//1Hour/RUN:A/'', ''//Alderson/FLOW//1Day/RUN:A/'']"
  have r0: "resolve_entry ?w ''s3://b/k.dss'' PNone None ''//Alderson/FLOW//1Hour/RUN:A/''
              = Inr (''RUN:A'', ''Alderson'', [1, 2, 3])"
    by (simp add: resolve_entry_def get_path_part_def path_parts_def)
  have r1: "resolve_entry ?w ''s3://b/k.dss'' PNone None ''//Alderson/FLOW//1Day/RUN:A/''
              = Inr (''RUN:A'', ''Alderson'', [7, 8, 9])"
    by (simp add: resolve_entry_def get_path_part_def path_parts_def)
  have a1: "fs_get ?w ''s3://b/k.dss'' = None" by simp
  have a2: "getPathnameList ?w ''s3://b/k.dss'' ''/*/*/FLOW/*/*/*/''
              = Inr [''//Alderson/FLOW/01Jan1996/1Hour/RUN:A/'',
                     ''//Alderson/FLOW/01Jan1996/1Day/RUN:A/'']" by simp
  have a3: "remove_date (set_order ?w) [''//Alderson/FLOW/01Jan1996/1Hour/RUN:A/'',
                     ''//Alderson/FLOW/01Jan1996/1Day/RUN:A/''] = Inr ?stems"
    by (simp add: remove_date_def)
  have a4: "\<forall>p\<in>set ?stems. \<exists>r. resolve_entry ?w ''s3://b/k.dss'' PNone None p = Inr r"
    using r0 r1 by simp
  have a5: "(0::nat) < 1" by simp
  have a6: "1 < length ?stems" by simp
  have a7: "?stems ! 0 \<noteq> ?stems ! 1" by simp
  have a8: "resolve_entry ?w ''s3://b/k.dss'' PNone None (?stems ! 0)
              = Inr (''RUN:A'', ''Alderson'', [1, 2, 3])" using r0 by simp
  have a9: "resolve_entry ?w ''s3://b/k.dss'' PNone None (?stems ! 1)
              = Inr (''RUN:A'', ''Alderson'', [7, 8, 9])" using r1 by simp
  have a10: "\<forall>l. 1 < l \<and> l < length ?stems \<longrightarrow>
           (\<forall>v. resolve_entry ?w ''s3://b/k.dss'' PNone None (?stems ! l)
                  \<noteq> Inr (''RUN:A'', ''Alderson'', v))"
  proof (intro allI impI)
    fix l :: nat and v :: "int list"
    assume "1 < l \<and> l < length ?stems"
    then have False by auto
    then show "resolve_entry ?w ''s3://b/k.dss'' PNone None (?stems ! l)
                  \<noteq> Inr (''RUN:A'', ''Alderson'', v)" ..
  qed
  show ?thesis
    by (rule later_read_overwrites [OF a1 a2 a3 a4 a5 a6 a7 a8 a9 a10])
qed

section \<open>The variable name\<close>

text \<open>
  \<open>main\<close> never reads the key \<open>c_part_variable\<close>: the variable name comes from the key
  \<open>simplify\<close>.
\<close>

lemma main_c_part_variable_unread:
  "main w env (params(''c_part_variable'' \<mapsto> v)) = main w env params"
  by (simp add: main_def params_get_def Let_def cong: option.case_cong)

text \<open>
  C1 at a run that supplies \<open>c_part_variable = "STAGE"\<close> on a container holding a STAGE
  and a FLOW series: the pattern selects the FLOW series and the data variable of the
  written dataset is named \<open>FLOW\<close>.
\<close>

theorem variable_name_option_ignored:
  "main \<lparr>head_object = (\<lambda>b k. True), fs_get = (\<lambda>k. None),
         getPathnameList = (\<lambda>k p.
            if p = ''/*/*/STAGE/*/*/*/'' then Inr [''//Alderson/STAGE/01Jan1996/1Hour/RUN:A/'']
            else if p = ''/*/*/FLOW/*/*/*/'' then Inr [''//Alderson/FLOW/01Jan1996/1Hour/RUN:A/'']
            else Inr []),
         read_ts = (\<lambda>k p. if p = ''//Alderson/STAGE//1Hour/RUN:A/''
                            then Inr [5, 6 :: int] else Inr [1, 2]),
         set_order = remdups, assemble = Inr, to_zarr = (\<lambda>l t. None)\<rparr>
        {''AWS_ACCESS_KEY_ID'', ''AWS_SECRET_ACCESS_KEY''}
        [''dss_input_bucket'' \<mapsto> PStr ''wy-ble'', ''dss_input_key'' \<mapsto> PStr ''hms/Y001.dss'',
         ''zarr_output_bucket'' \<mapsto> PStr ''wy-ble'', ''zarr_output_prefix'' \<mapsto> PStr ''out/t.zarr'',
         ''c_part_variable'' \<mapsto> PStr ''STAGE'']
   = (Inr (Some \<lparr>zarr_s3_key = ''s3://wy-ble/out/t.zarr'', success = [], failures = []\<rparr>),
      [HeadObject (PStr ''wy-ble'') ''hms/Y001.dss'',
       Download ''s3://wy-ble/hms/Y001.dss'',
       ZarrWrite ''s3://wy-ble/out/t.zarr''
         \<lparr>root_name = PStr ''main_group'', group_name = PStr ''main_group'',
          leaf_name = PStr ''sub_group'', variable = PStr ''FLOW'',
          array = [(''RUN:A'', [(''Alderson'', [1, 2])])]\<rparr>])"
  by (simp add: main_def params_get_def check_file_exists_def path_suffix_def path_name_def
      str_rfind_def extract_data_from_dss_def remove_date_def get_path_part_def path_parts_def
      Let_def)

section \<open>The pre-flight check\<close>

text \<open>
  C5, as the code has it. When both bucket options are present and equal, both credential
  variables are set, and the source key is a string whose pathlib suffix is not \<open>.dss\<close>,
  the pre-flight check fails before any call to the object store, and \<open>main\<close> logs the
  cause and returns nothing: no download, nothing written.
\<close>

theorem preflight_rejects_suffix:
  assumes "params ''dss_input_bucket'' = Some b" and "params ''zarr_output_bucket'' = Some b"
    and "''AWS_ACCESS_KEY_ID'' \<in> env" and "''AWS_SECRET_ACCESS_KEY'' \<in> env"
    and "params_get params ''dss_input_key'' (PStr '''') = PStr key"
    and "path_suffix key \<noteq> ''.dss''"
  shows "check_file_exists w b (PStr key) = (Inl (NotADssFile key), [])
         \<and> main w env params = (Inr None, [LogError (NotADssFile key)])"
proof -
  have chk: "check_file_exists w b (PStr key) = (Inl (NotADssFile key), [])"
    using assms(6) by (simp add: check_file_exists_def)
  have bucket: "params_get params ''dss_input_bucket'' (PStr '''') = b"
    using assms(1) by (simp add: params_get_def)
  have "main w env params = (Inr None, [LogError (NotADssFile key)])"
    using assms(1-4) by (simp add: main_def bucket assms(5) chk Let_def)
  with chk show ?thesis by simp
qed

text \<open>
  C5 as stated fails twice. With different buckets \<open>main\<close> raises before the pre-flight
  check instead of returning. And the key \<open>hms/Y001.dss/\<close> does not end in \<open>.dss\<close>, yet
  its pathlib suffix is \<open>.dss\<close>: the check passes and the run goes on to download and
  write.
\<close>

theorem preflight_claim_fails:
  "\<not> suffix ''.dss'' ''hms/Y001.txt''
   \<and> main \<lparr>head_object = (\<lambda>b k. True), fs_get = (\<lambda>k. None),
            getPathnameList = (\<lambda>k p. Inr [''//Alderson/FLOW/01Jan1996/1Hour/RUN:A/'']),
            read_ts = (\<lambda>k p. Inr [1, 2 :: int]),
            set_order = remdups, assemble = Inr, to_zarr = (\<lambda>l t. None)\<rparr>
          {''AWS_ACCESS_KEY_ID'', ''AWS_SECRET_ACCESS_KEY''}
          [''dss_input_bucket'' \<mapsto> PStr ''wy-ble'', ''dss_input_key'' \<mapsto> PStr ''hms/Y001.txt'',
           ''zarr_output_bucket'' \<mapsto> PStr ''other'', ''zarr_output_prefix'' \<mapsto> PStr ''out/t.zarr'']
       = (Inl MultiBucket, [])
   \<and> \<not> suffix ''.dss'' ''hms/Y001.dss/''
   \<and> main \<lparr>head_object = (\<lambda>b k. True), fs_get = (\<lambda>k. None),
            getPathnameList = (\<lambda>k p. Inr [''//Alderson/FLOW/01Jan1996/1Hour/RUN:A/'']),
            read_ts = (\<lambda>k p. Inr [1, 2 :: int]),
            set_order = remdups, assemble = Inr, to_zarr = (\<lambda>l t. None)\<rparr>
          {''AWS_ACCESS_KEY_ID'', ''AWS_SECRET_ACCESS_KEY''}
          [''dss_input_bucket'' \<mapsto> PStr ''wy-ble'', ''dss_input_key'' \<mapsto> PStr ''hms/Y001.dss/'',
           ''zarr_output_bucket'' \<mapsto> PStr ''wy-ble'', ''zarr_output_prefix'' \<mapsto> PStr ''out/t.zarr'']
       = (Inr (Some \<lparr>zarr_s3_key = ''s3://wy-ble/out/t.zarr'', success = [], failures = []\<rparr>),
          [HeadObject (PStr ''wy-ble'') ''hms/Y001.dss/'',
           Download ''s3://wy-ble/hms/Y001.dss/'',
           ZarrWrite ''s3://wy-ble/out/t.zarr''
             \<lparr>root_name = PStr ''main_group'', group_name = PStr ''main_group'',
              leaf_name = PStr ''sub_group'', variable = PStr ''FLOW'',
              array = [(''RUN:A'', [(''Alderson'', [1, 2])])]\<rparr>])"
  by (simp add: main_def params_get_def check_file_exists_def path_suffix_def path_name_def
      str_rfind_def extract_data_from_dss_def remove_date_def get_path_part_def path_parts_def
      Let_def suffix_def)

theorem preflight_rejects_suffix_witness:
  "path_suffix ''hms/Y001.txt'' \<noteq> ''.dss''
   \<and> main \<lparr>head_object = (\<lambda>b k. True), fs_get = (\<lambda>k. None),
            getPathnameList = (\<lambda>k p. Inr [''//Alderson/FLOW/01Jan1996/1Hour/RUN:A/'']),
            read_ts = (\<lambda>k p. Inr [1, 2 :: int]),
            set_order = remdups, assemble = Inr, to_zarr = (\<lambda>l t. None)\<rparr>
          {''AWS_ACCESS_KEY_ID'', ''AWS_SECRET_ACCESS_KEY''}
          [''dss_input_bucket'' \<mapsto> PStr ''wy-ble'', ''dss_input_key'' \<mapsto> PStr ''hms/Y001.txt'',
           ''zarr_output_bucket'' \<mapsto> PStr ''wy-ble'', ''zarr_output_prefix'' \<mapsto> PStr ''out/t.zarr'']
       = (Inr None, [LogError (NotADssFile ''hms/Y001.txt'')])"
proof -
  let ?w = "\<lparr>head_object = (\<lambda>b k. True), fs_get = (\<lambda>k. None),
            getPathnameList = (\<lambda>k p. Inr [''//Alderson/FLOW/01Jan1996/1Hour/RUN:A/'']),
            read_ts = (\<lambda>k p. Inr [1, 2 :: int]),
            set_order = remdups, assemble = Inr :: int list grouped \<Rightarrow> exn + int list grouped,
            to_zarr = (\<lambda>l t. None)\<rparr>"
  let ?env = "{''AWS_ACCESS_KEY_ID'', ''AWS_SECRET_ACCESS_KEY''}"
  let ?params = "[''dss_input_bucket'' \<mapsto> PStr ''wy-ble'', ''dss_input_key'' \<mapsto> PStr ''hms/Y001.txt'',
           ''zarr_output_bucket'' \<mapsto> PStr ''wy-ble'', ''zarr_output_prefix'' \<mapsto> PStr ''out/t.zarr'']"
  have a1: "?params ''dss_input_bucket'' = Some (PStr ''wy-ble'')" by simp
  have a2: "?params ''zarr_output_bucket'' = Some (PStr ''wy-ble'')" by simp
  have a3: "''AWS_ACCESS_KEY_ID'' \<in> ?env" by simp
  have a4: "''AWS_SECRET_ACCESS_KEY'' \<in> ?env" by simp
  have a5: "params_get ?params ''dss_input_key'' (PStr '''') = PStr ''hms/Y001.txt''"
    by (simp add: params_get_def)
  have a6: "path_suffix ''hms/Y001.txt'' \<noteq> ''.dss''"
    by (simp add: path_suffix_def path_name_def str_rfind_def)
  show ?thesis
    using a6 preflight_rejects_suffix [of ?params "PStr ''wy-ble''" ?env "''hms/Y001.txt''" ?w,
        OF a1 a2 a3 a4 a5 a6]
    by simp
qed

text \<open>How the pathlib suffix relates to the end of the key.\<close>

lemma last_str_split_suffix: "suffix (last (str_split sep s)) s"
proof (induction s)
  case Nil
  then show ?case by simp
next
  case (Cons c cs)
  obtain w ws where ws: "str_split sep cs = w # ws"
    using str_split_not_Nil [of sep cs] by (cases "str_split sep cs") auto
  show ?case
  proof (cases "c = sep")
    case True
    then have "last (str_split sep (c # cs)) = last (str_split sep cs)"
      using ws by simp
    then show ?thesis using Cons.IH by (simp add: suffix_ConsI)
  next
    case False
    show ?thesis
    proof (cases ws)
      case Nil
      then have "count_list cs sep = 0"
        using ws str_split_length [of sep cs] by simp
      then have "sep \<notin> set cs" by (simp add: count_list_0_iff)
      then have "w = cs" using ws str_split_nosep [of sep cs] by simp
      then show ?thesis using False ws Nil by simp
    next
      case (Cons x xs)
      then have "last (str_split sep (c # cs)) = last (str_split sep cs)"
        using False ws by simp
      then show ?thesis using Cons.IH by (simp add: suffix_ConsI)
    qed
  qed
qed

lemma last_filter_keeps:
  "xs \<noteq> [] \<Longrightarrow> P (last xs) \<Longrightarrow> last (filter P xs) = last xs"
  by (cases xs rule: rev_cases) simp_all

lemma path_suffix_dss_ends:
  assumes "path_suffix key = ''.dss''"
    and "last (str_split CHR ''/'' key) \<noteq> []" and "last (str_split CHR ''/'' key) \<noteq> ''.''"
  shows "suffix ''.dss'' key"
proof -
  let ?segs = "str_split CHR ''/'' key"
  let ?P = "\<lambda>x. x \<noteq> [] \<and> x \<noteq> ''.''"
  have ne: "?segs \<noteq> []" by (rule str_split_not_Nil)
  have "last ?segs \<in> set (filter ?P ?segs)" using ne assms(2,3) by simp
  then have fne: "filter ?P ?segs \<noteq> []" by (auto simp: filter_empty_conv)
  have "last (filter ?P ?segs) = last ?segs"
    using ne assms(2,3) by (simp add: last_filter_keeps)
  then have name: "path_name key = last ?segs"
    using fne by (cases "filter ?P ?segs") (simp_all add: path_name_def)
  from assms(1) obtain i where "drop i (path_name key) = ''.dss''"
    by (auto simp: path_suffix_def Let_def split: option.splits if_splits)
  then have "suffix ''.dss'' (path_name key)" by (metis suffix_drop)
  then have "suffix ''.dss'' (last ?segs)" using name by simp
  then show ?thesis using last_str_split_suffix [of "CHR ''/''" key]
    by (rule suffix_order.trans)
qed

section \<open>The expected context of the custom resolver\<close>







end
